theory Spec2Isabelle
  imports Main "HOL-Library.Sublist"
begin

section \<open>The CSRC downloader (csrc\_downloader.py)\<close>

text \<open>
  A shallow embedding of the class \<open>CSRCDownloader\<close>. Python strings are byte strings
  (\<open>string\<close>): text outside ASCII stands as its UTF-8 encoding, under which the
  substring test \<open>in\<close>, \<open>endswith\<close>, equality and the replacement of ASCII characters are
  the same as on code points. Case folding, \<open>\d\<close> and \<open>\s\<close> are the ASCII ones.
  The collaborators the code calls (the HTTP session, the file system, the HTML parser and
  \<open>urllib.parse\<close>) are the fields of an environment record; every request the code issues
  and every warning or error it logs is appended to a trace. The site is fixed while the
  code runs: the same request gets the same answer. The pauses (\<open>time.sleep\<close>) and the
  information lines of the log other than \<open>Downloaded\<close> are left out.
\<close>

subsection \<open>Strings\<close>

definition upper_letters :: string where
  "upper_letters = ''ABCDEFGHIJKLMNOPQRSTUVWXYZ''"

definition lower_letters :: string where
  "lower_letters = ''abcdefghijklmnopqrstuvwxyz''"

definition lower_char :: "char \<Rightarrow> char" where
  "lower_char c =
     (case map_of (zip upper_letters lower_letters) c of
        Some d \<Rightarrow> d
      | None \<Rightarrow> c)"

text \<open>\<open>str.lower\<close>.\<close>

definition lower :: "string \<Rightarrow> string" where
  "lower s = map lower_char s"

text \<open>\<open>old in s\<close> is \<^term>\<open>sublist old s\<close>, \<open>s.endswith(e)\<close> is \<^term>\<open>suffix e s\<close> and
  \<open>s.startswith(p)\<close> is \<^term>\<open>prefix p s\<close>.\<close>

definition is_digit :: "char \<Rightarrow> bool" where
  "is_digit c = (c \<in> set ''0123456789'')"

text \<open>\<open>\s\<close> on ASCII: space, tab, line feed, vertical tab, form feed, carriage return and
  the four separators \<open>0x1C\<close> to \<open>0x1F\<close>.\<close>

definition is_space :: "char \<Rightarrow> bool" where
  "is_space c = (c \<in> set [CHR 0x20, CHR 0x09, CHR 0x0A, CHR 0x0B, CHR 0x0C, CHR 0x0D,
                             CHR 0x1C, CHR 0x1D, CHR 0x1E, CHR 0x1F])"

text \<open>The class \<open>[_\s]\<close>.\<close>

definition is_sep :: "char \<Rightarrow> bool" where
  "is_sep c = (c = CHR ''_'' \<or> is_space c)"

text \<open>\<open>text.isdigit()\<close>: not empty, and digits only.\<close>

definition isdigit :: "string \<Rightarrow> bool" where
  "isdigit s = (s \<noteq> [] \<and> list_all is_digit s)"

definition digit_value :: "char \<Rightarrow> nat" where
  "digit_value c =
     (case map_of (zip ''0123456789'' [0, 1, 2, 3, 4, 5, 6, 7, 8, 9]) c of
        Some d \<Rightarrow> d
      | None \<Rightarrow> 0)"

text \<open>\<open>int(ds)\<close> on a string of digits, and \<open>str(n)\<close>.\<close>

definition int_of_digits :: "string \<Rightarrow> nat" where
  "int_of_digits ds = foldl (\<lambda>n c. 10 * n + digit_value c) 0 ds"

fun str_nat :: "nat \<Rightarrow> string" where
  "str_nat n =
     (if n < 10 then [''0123456789'' ! n]
      else str_nat (n div 10) @ [''0123456789'' ! (n mod 10)])"

declare str_nat.simps [simp del]

text \<open>\<open>s.replace(old, new)\<close>: every occurrence of \<open>old\<close>, left to right, none overlapping
  another. (An empty \<open>old\<close> puts \<open>new\<close> before every character and at the end.)\<close>

fun replace :: "string \<Rightarrow> string \<Rightarrow> string \<Rightarrow> string" where
  "replace old new [] = (if old = [] then new else [])"
| "replace old new (c # cs) =
     (if old = [] then new @ c # replace old new cs
      else if prefix old (c # cs) then new @ replace old new (drop (length old - 1) cs)
      else c # replace old new cs)"

text \<open>\<open>re.search\<close>: the match at the leftmost position where the pattern matches;
  the pattern is given by its match at the start of a string.\<close>

fun re_search :: "(string \<Rightarrow> 'a option) \<Rightarrow> string \<Rightarrow> 'a option" where
  "re_search m [] = m []"
| "re_search m (c # cs) = (case m (c # cs) of Some r \<Rightarrow> Some r | None \<Rightarrow> re_search m cs)"

text \<open>\<open>re.sub\<close>: every match, left to right, none overlapping another; the pattern is
  given by the length of its match at the start of a string, and matches no empty string.\<close>

fun re_sub :: "(string \<Rightarrow> nat option) \<Rightarrow> string \<Rightarrow> string \<Rightarrow> string" where
  "re_sub m repl [] = []"
| "re_sub m repl (c # cs) =
     (case m (c # cs) of
        Some (Suc n) \<Rightarrow> repl @ re_sub m repl (drop n cs)
      | _ \<Rightarrow> c # re_sub m repl cs)"

text \<open>A literal matched under \<open>re.I\<close> at the start of a string.\<close>

definition starts_ci :: "string \<Rightarrow> string \<Rightarrow> bool" where
  "starts_ci lit s = (lower (take (length lit) s) = lower lit)"

subsection \<open>Errors, events, the store and the environment\<close>

datatype error = ConnectionError | HTTPError nat | OSError

text \<open>What the anchors of a parsed page give the code: \<open>a["href"]\<close>,
  \<open>a.get_text(strip=True)\<close>, \<open>a.get("class")\<close> and \<open>a.get("onclick")\<close>.\<close>

record anchor =
  a_href :: string
  a_text :: string
  a_class :: "string list option"
  a_onclick :: "string option"

text \<open>A parsed page (the \<open>soup\<close>): \<open>soup.find_all("a", href=True)\<close> in document order,
  and for each of the three selectors of \<open>find_all_pagination_links\<close> the containers it
  finds, each with its own \<open>find_all("a", href=True)\<close>.\<close>

record document =
  anchors :: "anchor list"
  class_page :: "anchor list list"
  class_pagination :: "anchor list list"
  id_page :: "anchor list list"

text \<open>The trace: the page requests of \<open>fetch\<close>, the file requests of \<open>download\<close> (URL and
  name), the two requests of \<open>url_exists\<close>, the line \<open>Downloaded: name\<close>, and the lines of
  \<open>logger.warning\<close> and \<open>logger.error\<close> in \<open>run\<close> (with the URL of the page).\<close>

datatype event =
    Fetch string
  | Transfer string string
  | Head string
  | Get string
  | Downloaded string
  | Warning string
  | Error string

text \<open>The state of the object and of its download directory: \<open>self.downloaded\<close>, the
  lines of \<open>downloaded_files.txt\<close>, the other files of the directory (the chunks written
  to each), and the trace.\<close>

record store =
  downloaded :: "string set"
  record_file :: "string list"
  disk :: "string \<Rightarrow> string list option"
  trace :: "event list"

text \<open>
  The collaborators.
  \<^item> \<open>page_get\<close>: \<open>session.get(url, timeout=30)\<close>, an exception or the status and the
    parsed body;
  \<^item> \<open>file_get\<close>: \<open>session.get(url, stream=True, timeout=60)\<close>, an exception or the
    status, the chunks \<open>iter_content\<close> yields and the exception it raises after them, if any;
  \<^item> \<open>head_status\<close>, \<open>get_status\<close>: the two requests of \<open>url_exists\<close>;
  \<^item> \<open>can_open\<close>: whether \<open>open(path, "wb")\<close> succeeds; \<open>write_limit\<close>: how many
    \<open>f.write\<close> calls succeed on that file (\<open>None\<close>: all); \<open>record_writable\<close>: whether the
    line can be appended to \<open>downloaded_files.txt\<close>;
  \<^item> \<open>resolve\<close>: \<open>urljoin\<close> on two non-empty strings; \<open>url_path\<close>: \<open>urlparse(u).path\<close>;
  \<^item> \<open>list_of_set\<close>: the order in which \<open>list(set(xs))\<close> enumerates.
\<close>

record env =
  page_get :: "string \<Rightarrow> error + nat \<times> document"
  file_get :: "string \<Rightarrow> error + nat \<times> string list \<times> error option"
  head_status :: "string \<Rightarrow> error + nat"
  get_status :: "string \<Rightarrow> error + nat"
  can_open :: "string \<Rightarrow> bool"
  write_limit :: "string \<Rightarrow> nat option"
  record_writable :: bool
  resolve :: "string \<Rightarrow> string \<Rightarrow> string"
  url_path :: "string \<Rightarrow> string"
  list_of_set :: "string list \<Rightarrow> string list"

definition log_event :: "event \<Rightarrow> store \<Rightarrow> store" where
  "log_event e s = s\<lparr>trace := trace s @ [e]\<rparr>"

text \<open>\<open>Response.raise_for_status\<close>: a status from 400 to 599 raises.\<close>

definition raise_for_status :: "nat \<Rightarrow> error option" where
  "raise_for_status st = (if 400 \<le> st \<and> st < 600 then Some (HTTPError st) else None)"

text \<open>\<open>urljoin(base, url)\<close>: its two guards, then the resolution of the library.\<close>

definition urljoin :: "env \<Rightarrow> string \<Rightarrow> string \<Rightarrow> string" where
  "urljoin env base url =
     (if base = [] then url else if url = [] then base else resolve env base url)"

subsection \<open>The download store\<close>

text \<open>\<open>_load_downloaded\<close>: the set of the lines of the record.\<close>

definition load_downloaded :: "string list \<Rightarrow> (string \<Rightarrow> string list option) \<Rightarrow> store" where
  "load_downloaded ls d = \<lparr>downloaded = set ls, record_file = ls, disk = d, trace = []\<rparr>"

text \<open>\<open>_save_downloaded\<close>: append the line, then add the URL to the set.\<close>

definition save_downloaded :: "env \<Rightarrow> string \<Rightarrow> store \<Rightarrow> error option \<times> store" where
  "save_downloaded env url s =
     (if record_writable env
      then (None, s\<lparr>downloaded := insert url (downloaded s),
                     record_file := record_file s @ [url]\<rparr>)
      else (Some OSError, s))"

definition valid_names :: "string \<Rightarrow> bool" where
  "valid_names name = list_ex (\<lambda>ext. suffix ext name) [''csv'', ''xls'', ''xlsx'']"

text \<open>Sequencing under exceptions: the second step runs if the first raised nothing.\<close>

definition and_then ::
  "error option \<times> store \<Rightarrow> (store \<Rightarrow> error option \<times> store) \<Rightarrow> error option \<times> store" where
  "and_then r f = (case fst r of Some e \<Rightarrow> r | None \<Rightarrow> f (snd r))"

text \<open>The loop \<open>for c in r.iter_content(8192): f.write(c)\<close>: the chunks written so far
  and the \<open>OSError\<close> of the first write beyond the limit.\<close>

fun write_chunks :: "nat option \<Rightarrow> string list \<Rightarrow> string list \<Rightarrow> string list \<times> error option" where
  "write_chunks lim [] acc = (acc, None)"
| "write_chunks None (c # cs) acc = write_chunks None cs (acc @ [c])"
| "write_chunks (Some 0) (c # cs) acc = (acc, Some OSError)"
| "write_chunks (Some (Suc n)) (c # cs) acc = write_chunks (Some n) cs (acc @ [c])"

text \<open>The \<open>with open(path, "wb") as f\<close> block of \<open>download\<close>: opening truncates the
  file, a failed write or a broken stream leaves what was written before it.\<close>

definition write_file ::
  "env \<Rightarrow> string \<Rightarrow> string list \<Rightarrow> error option \<Rightarrow> store \<Rightarrow> error option \<times> store" where
  "write_file env name chunks stream_err s =
     (if \<not> can_open env name then (Some OSError, s)
      else
        let wr = write_chunks (write_limit env name) chunks [];
            s2 = s\<lparr>disk := fun_upd (disk s) name (Some (fst wr))\<rparr>
        in (case snd wr of
              Some e \<Rightarrow> (Some e, s2)
            | None \<Rightarrow> (stream_err, s2)))"

text \<open>The end of \<open>download\<close>, once the response is there: write the file, then
  \<open>_save_downloaded\<close>, then the log line.\<close>

definition store_response ::
  "env \<Rightarrow> string \<Rightarrow> string \<Rightarrow> string list \<Rightarrow> error option \<Rightarrow> store \<Rightarrow> error option \<times> store" where
  "store_response env url name chunks stream_err s1 =
     and_then (write_file env name chunks stream_err s1) (\<lambda>s2.
     and_then (save_downloaded env url s2) (\<lambda>s3.
     (None, log_event (Downloaded name) s3)))"

text \<open>\<open>download\<close>: the exception it raises, if any, and the store it leaves.\<close>

definition download :: "env \<Rightarrow> string \<Rightarrow> string \<Rightarrow> store \<Rightarrow> error option \<times> store" where
  "download env url name s =
     (if url \<in> downloaded s \<and> valid_names name then (None, s)
      else
        let s1 = log_event (Transfer url name) s in
        (case file_get env url of
           Inl e \<Rightarrow> (Some e, s1)
         | Inr (st, chunks, stream_err) \<Rightarrow>
             (case raise_for_status st of
                Some e \<Rightarrow> (Some e, s1)
              | None \<Rightarrow> store_response env url name chunks stream_err s1)))"

subsection \<open>The link classifier\<close>








subsection \<open>The pagination oracle\<close>

datatype pmode = Button | Url

text \<open>The vocabularies: \<open>next_texts\<close> and \<open>last_page_texts\<close>, the Chinese entries and
  the guillemet in UTF-8.\<close>

definition next_texts :: "string list" where
  "next_texts =
     [[CHR 0xE4, CHR 0xB8, CHR 0x8B, CHR 0xE4, CHR 0xB8, CHR 0x80, CHR 0xE9, CHR 0xA1, CHR 0xB5],
      [CHR 0xE4, CHR 0xB8, CHR 0x8B, CHR 0xE9, CHR 0xA1, CHR 0xB5],
      ''next'', ''Next'', ''>'', [CHR 0xC2, CHR 0xBB]]"


text \<open>\<open>any(t in text for t in vocabulary)\<close>.\<close>

definition text_matches :: "string list \<Rightarrow> string \<Rightarrow> bool" where
  "text_matches vocabulary text = list_ex (\<lambda>t. sublist t text) vocabulary"

text \<open>\<open>a.get("class") and any("disabled" in str(c).lower() for c in a.get("class"))\<close> and
  \<open>"disabled" in str(a.get("onclick", "")).lower()\<close>.\<close>

definition class_disabled :: "anchor \<Rightarrow> bool" where
  "class_disabled a =
     (case a_class a of
        None \<Rightarrow> False
      | Some cs \<Rightarrow> cs \<noteq> [] \<and> list_ex (\<lambda>c. sublist ''disabled'' (lower c)) cs)"

definition onclick_disabled :: "anchor \<Rightarrow> bool" where
  "onclick_disabled a =
     sublist ''disabled'' (lower (case a_onclick a of None \<Rightarrow> [] | Some v \<Rightarrow> v))"

text \<open>The patterns, each by its match at the start of a string. A word under \<open>re.I\<close>,
  then \<open>[_\s]*\<close>, then \<open>(\d+)\<close>: the text before the digits, and the digits.\<close>

definition m_word_digits :: "string \<Rightarrow> string \<Rightarrow> (string \<times> string) option" where
  "m_word_digits w s =
     (if starts_ci w s then
        let r = drop (length w) s;
            ds = takeWhile is_digit (dropWhile is_sep r)
        in if ds = [] then None else Some (take (length w) s @ takeWhile is_sep r, ds)
      else None)"

text \<open>\<open>(page[_\s]*|p[_\s]*)(\d+)\<close> under \<open>re.I\<close>.\<close>

definition m_page :: "string \<Rightarrow> (string \<times> string) option" where
  "m_page s = (case m_word_digits ''page'' s of Some r \<Rightarrow> Some r | None \<Rightarrow> m_word_digits ''p'' s)"

text \<open>\<open>common_list_(\d+)\.shtml\<close>: the whole match and the digits.\<close>

definition m_common_list_n :: "string \<Rightarrow> (string \<times> string) option" where
  "m_common_list_n s =
     (if prefix ''common_list_'' s then
        let r = drop 12 s; ds = takeWhile is_digit r
        in if ds \<noteq> [] \<and> prefix ''.shtml'' (dropWhile is_digit r)
           then Some (''common_list_'' @ ds @ ''.shtml'', ds) else None
      else None)"

text \<open>\<open>common_list(_\d+)?\.shtml\<close> under \<open>re.I\<close>.\<close>

definition m_common_list :: "string \<Rightarrow> unit option" where
  "m_common_list s =
     (if starts_ci ''common_list'' s then
        let r = drop 11 s in
        if (prefix ''_'' r \<and> takeWhile is_digit (drop 1 r) \<noteq> [] \<and>
            starts_ci ''.shtml'' (dropWhile is_digit (drop 1 r)))
           \<or> starts_ci ''.shtml'' r
        then Some () else None
      else None)"

definition has_url_pagination_pattern :: "string \<Rightarrow> bool" where
  "has_url_pagination_pattern url =
     (re_search m_common_list url \<noteq> None \<or>
      re_search (m_word_digits ''page'') url \<noteq> None \<or>
      re_search (m_word_digits ''p'') url \<noteq> None \<or>
      re_search (m_word_digits ''index'') url \<noteq> None)"

text \<open>\<open>re.escape(prefix)\d+\<close> and \<open>index[_\s]*\d+\<close> under \<open>re.I\<close>: the length of the
  match.\<close>

definition m_prefix_digits :: "string \<Rightarrow> string \<Rightarrow> nat option" where
  "m_prefix_digits pre s =
     (if starts_ci pre s then
        let ds = takeWhile is_digit (drop (length pre) s)
        in if ds = [] then None else Some (length pre + length ds)
      else None)"

definition m_index :: "string \<Rightarrow> nat option" where
  "m_index s = map_option (\<lambda>(g, ds). length g + length ds) (m_word_digits ''index'' s)"

definition generate_next_url :: "string \<Rightarrow> string option" where
  "generate_next_url current_url =
     (if suffix ''common_list.shtml'' current_url then
        Some (replace ''common_list.shtml'' ''common_list_2.shtml'' current_url)
      else
        (case re_search m_common_list_n current_url of
           Some (g0, ds) \<Rightarrow>
             Some (replace g0 (''common_list_'' @ str_nat (int_of_digits ds + 1) @ ''.shtml'')
                     current_url)
         | None \<Rightarrow>
             (case re_search m_page current_url of
                Some (pre, ds) \<Rightarrow>
                  Some (re_sub (m_prefix_digits pre) (pre @ str_nat (int_of_digits ds + 1))
                          current_url)
              | None \<Rightarrow>
                  (case re_search (m_word_digits ''index'') current_url of
                     Some (g, ds) \<Rightarrow>
                       Some (re_sub m_index (''index_'' @ str_nat (int_of_digits ds + 1))
                               current_url)
                   | None \<Rightarrow> None))))"

text \<open>\<open>url_exists\<close>: the answer and the requests it issued.\<close>

definition url_exists :: "env \<Rightarrow> string \<Rightarrow> store \<Rightarrow> bool \<times> store" where
  "url_exists env url s =
     (let s1 = log_event (Head url) s in
      case head_status env url of
        Inr st \<Rightarrow> (st = 200, s1)
      | Inl e \<Rightarrow>
          (let s2 = log_event (Get url) s1 in
           case get_status env url of
             Inr st \<Rightarrow> (st = 200, s2)
           | Inl e' \<Rightarrow> (False, s2)))"

text \<open>The first loop of \<open>detect_pagination_mode\<close>: whether it returns \<open>"button"\<close>.\<close>

fun detect_button :: "anchor list \<Rightarrow> bool" where
  "detect_button [] = False"
| "detect_button (a # as) =
     (if text_matches next_texts (a_text a) then
        (if class_disabled a then detect_button as
         else if onclick_disabled a then detect_button as
         else True)
      else detect_button as)"

definition find_all_pagination_links :: "env \<Rightarrow> document \<Rightarrow> string \<Rightarrow> string list" where
  "find_all_pagination_links env soup current_url =
     (let in_containers =
            concat (map (\<lambda>container.
                      map (\<lambda>a. urljoin env current_url (a_href a))
                        (filter (\<lambda>a. a_href a \<noteq> []) container))
                    (class_page soup @ class_pagination soup @ id_page soup));
          numbered =
            foldl (\<lambda>links a.
                     if isdigit (a_text a) \<and> has_url_pagination_pattern (a_href a) then
                       (let full_url = urljoin env current_url (a_href a)
                        in if full_url \<in> set links then links else links @ [full_url])
                     else links)
                  in_containers (anchors soup)
      in list_of_set env numbered)"

definition detect_pagination_mode ::
  "env \<Rightarrow> document \<Rightarrow> string \<Rightarrow> store \<Rightarrow> pmode option \<times> store" where
  "detect_pagination_mode env soup current_url s =
     (if detect_button (anchors soup) then (Some Button, s)
      else
        let probe =
              (if has_url_pagination_pattern current_url then
                 (case generate_next_url current_url of
                    Some next_url \<Rightarrow>
                      if next_url \<noteq> [] then url_exists env next_url s else (False, s)
                  | None \<Rightarrow> (False, s))
               else (False, s))
        in if fst probe then (Some Url, snd probe)
           else
             let pagination_links = find_all_pagination_links env soup current_url
             in if pagination_links \<noteq> [] \<and>
                   list_ex has_url_pagination_pattern (take 5 pagination_links)
                then (Some Url, snd probe)
                else (None, snd probe))"







subsection \<open>The crawl\<close>






text \<open>How the \<open>try\<close> block of one iteration ends: with an exception, with \<open>break\<close>, or
  at its end with the next value of \<open>current\<close>.\<close>

datatype outcome = Raised error | Break | Next "string option"








subsection \<open>Fixtures\<close>

text \<open>Small worlds on which the theorems below are run: an anchor with no class and no
  click handler, a page of anchors with no pagination container, a resolution of relative
  links against the directory of the base, a path that drops the query and the fragment,
  and a site given by its pages and its files (any other page answers 404, any other file
  fails to connect).\<close>

definition link :: "string \<Rightarrow> string \<Rightarrow> anchor" where
  "link href text = \<lparr>a_href = href, a_text = text, a_class = None, a_onclick = None\<rparr>"

definition page_of :: "anchor list \<Rightarrow> document" where
  "page_of as = \<lparr>anchors = as, class_page = [], class_pagination = [], id_page = []\<rparr>"

definition resolve_demo :: "string \<Rightarrow> string \<Rightarrow> string" where
  "resolve_demo base url =
     (if prefix ''http'' url then url
      else rev (dropWhile (\<lambda>c. c \<noteq> CHR ''/'') (rev base)) @ url)"

definition path_demo :: "string \<Rightarrow> string" where
  "path_demo url = takeWhile (\<lambda>c. c \<noteq> CHR ''?'' \<and> c \<noteq> CHR ''#'') url"

definition demo_env :: "(string \<times> document) list \<Rightarrow> (string \<times> string list) list \<Rightarrow> env" where
  "demo_env pages files =
     \<lparr>page_get = (\<lambda>u. case map_of pages u of
                          Some d \<Rightarrow> Inr (200, d)
                        | None \<Rightarrow> Inr (404, page_of [])),
      file_get = (\<lambda>u. case map_of files u of
                          Some chunks \<Rightarrow> Inr (200, chunks, None)
                        | None \<Rightarrow> Inl ConnectionError),
      head_status = (\<lambda>u. case map_of pages u of Some d \<Rightarrow> Inr 200 | None \<Rightarrow> Inr 404),
      get_status = (\<lambda>u. case map_of pages u of Some d \<Rightarrow> Inr 200 | None \<Rightarrow> Inr 404),
      can_open = (\<lambda>name. name \<noteq> []),
      write_limit = (\<lambda>name. None),
      record_writable = True,
      resolve = resolve_demo,
      url_path = path_demo,
      list_of_set = remdups\<rparr>"

text \<open>The download store as the specification words it: the extension of the name is one
  of \<open>.csv\<close>, \<open>.xls\<close>, \<open>.xlsx\<close>, whatever the case.\<close>

definition data_file_extension :: "string \<Rightarrow> bool" where
  "data_file_extension name =
     list_ex (\<lambda>e. suffix e (lower name)) [''.csv'', ''.xls'', ''.xlsx'']"



text \<open>The test the three loops over the anchors share: the text holds an entry of
  \<open>next_texts\<close> and neither disabled test fires.\<close>

definition enabled_next :: "anchor \<Rightarrow> bool" where
  "enabled_next a = (text_matches next_texts (a_text a) \<and> \<not> class_disabled a \<and> \<not> onclick_disabled a)"

text \<open>A site that answers every \<open>HEAD\<close> with 405 (method not allowed), and an anchor with
  a disabled class.\<close>

definition head_rejected_env :: env where
  "head_rejected_env = (demo_env [(''http://h/p2.html'', page_of [])] [])\<lparr>head_status := (\<lambda>u. Inr 405)\<rparr>"





definition quiet :: "store \<Rightarrow> store \<Rightarrow> bool" where
  "quiet s s' =
     (downloaded s \<subseteq> downloaded s' \<and>
      (\<exists>new. trace s' = trace s @ new \<and> (\<forall>u n. Transfer u n \<notin> set new)))"








text \<open>What a second run adds. The events a store has beyond another; a list of events is
  calm when it holds no error and no warning; a store replays another when its downloaded
  set holds the other's and what it adds is calm and transfers only names that the skip test
  of \<open>download\<close> rejects.\<close>

definition news :: "store \<Rightarrow> store \<Rightarrow> event list" where
  "news s s' = drop (length (trace s)) (trace s')"

definition calm :: "event list \<Rightarrow> bool" where
  "calm evs = (\<forall>c. Error c \<notin> set evs \<and> Warning c \<notin> set evs)"

definition replay :: "store \<Rightarrow> store \<Rightarrow> bool" where
  "replay s s' =
     (downloaded s \<subseteq> downloaded s' \<and> calm (news s s') \<and>
      (\<exists>new. trace s' = trace s @ new \<and>
         (\<forall>u n. Transfer u n \<in> set new \<longrightarrow> \<not> valid_names n)))"

section \<open>Properties\<close>

subsection \<open>The download store\<close>


lemma write_file_keeps:
  "downloaded (snd (write_file env name chunks se s)) = downloaded s"
  "record_file (snd (write_file env name chunks se s)) = record_file s"
  "trace (snd (write_file env name chunks se s)) = trace s"
  by (simp_all add: write_file_def Let_def split: option.splits)


lemma save_downloaded_trace: "trace (snd (save_downloaded env url s)) = trace s"
  by (simp add: save_downloaded_def)




lemma log_event_fields:
  "downloaded (log_event e s) = downloaded s"
  "record_file (log_event e s) = record_file s"
  "disk (log_event e s) = disk s"
  "trace (log_event e s) = trace s @ [e]"
  by (simp_all add: log_event_def)

lemma and_then_simps:
  "and_then (None, s) f = f s"
  "and_then (Some e, s) f = (Some e, s)"
  by (simp_all add: and_then_def)

lemma store_response_cases:
  obtains (write_failed) e where "fst (write_file env name chunks se s1) = Some e"
      "store_response env url name chunks se s1 = write_file env name chunks se s1"
  | (save_failed) e where "fst (write_file env name chunks se s1) = None"
      "fst (save_downloaded env url (snd (write_file env name chunks se s1))) = Some e"
      "store_response env url name chunks se s1 =
         save_downloaded env url (snd (write_file env name chunks se s1))"
  | (completed) "fst (write_file env name chunks se s1) = None"
      "fst (save_downloaded env url (snd (write_file env name chunks se s1))) = None"
      "store_response env url name chunks se s1 =
         (None, log_event (Downloaded name)
                  (snd (save_downloaded env url (snd (write_file env name chunks se s1)))))"
proof -
  obtain r s2 where w: "write_file env name chunks se s1 = (r, s2)" by force
  obtain r' s3 where sv: "save_downloaded env url s2 = (r', s3)" by force
  show thesis
  proof (cases r)
    case (Some e)
    with w show thesis
      by (intro write_failed[of e]) (simp_all add: store_response_def and_then_simps)
  next
    case None
    show thesis
    proof (cases r')
      case (Some e)
      with None w sv show thesis
        by (intro save_failed[of e]) (simp_all add: store_response_def and_then_simps)
    next
      case n: None
      with None w sv show thesis
        by (intro completed) (simp_all add: store_response_def and_then_simps)
    qed
  qed
qed

lemma store_response_trace:
  "\<exists>rest. trace (snd (store_response env url name chunks se s1)) = trace s1 @ rest"
  by (cases rule: store_response_cases[of env name chunks se s1 url])
     (simp_all add: write_file_keeps save_downloaded_trace log_event_fields)



text \<open>The four ways through \<open>download\<close>.\<close>

lemma download_cases:
  obtains (skipped) "url \<in> downloaded s" "valid_names name" "download env url name s = (None, s)"
  | (refused) e where "\<not> (url \<in> downloaded s \<and> valid_names name)" "file_get env url = Inl e"
      "download env url name s = (Some e, log_event (Transfer url name) s)"
  | (bad_status) st chunks se e where "\<not> (url \<in> downloaded s \<and> valid_names name)"
      "file_get env url = Inr (st, chunks, se)" "raise_for_status st = Some e"
      "download env url name s = (Some e, log_event (Transfer url name) s)"
  | (answered) st chunks se where "\<not> (url \<in> downloaded s \<and> valid_names name)"
      "file_get env url = Inr (st, chunks, se)" "raise_for_status st = None"
      "download env url name s =
         store_response env url name chunks se (log_event (Transfer url name) s)"
proof (cases "url \<in> downloaded s \<and> valid_names name")
  case True
  then show thesis by (intro skipped) (simp_all add: download_def)
next
  case False
  show thesis
  proof (cases "file_get env url")
    case (Inl e)
    with False show thesis by (intro refused[of e]) (auto simp: download_def Let_def)
  next
    case (Inr resp)
    obtain st chunks se where resp: "resp = (st, chunks, se)" by (cases resp) auto
    show thesis
    proof (cases "raise_for_status st")
      case None
      with False Inr resp show thesis
        by (intro answered[of st chunks se]) (auto simp: download_def Let_def)
    next
      case (Some e)
      with False Inr resp show thesis
        by (intro bad_status[of st chunks se e]) (auto simp: download_def Let_def)
    qed
  qed
qed

lemma download_transfers:
  assumes "\<not> (url \<in> downloaded s \<and> valid_names name)"
  shows "\<exists>rest. trace (snd (download env url name s)) = trace s @ Transfer url name # rest"
proof (cases rule: download_cases[of url s name env])
  case skipped
  with assms show ?thesis by simp
next
  case (refused e)
  then show ?thesis by (simp add: log_event_fields)
next
  case (bad_status st chunks se e)
  then show ?thesis by (simp add: log_event_fields)
next
  case (answered st chunks se)
  from store_response_trace[of env url name chunks se "log_event (Transfer url name) s"]
  show ?thesis unfolding answered(4) by (auto simp: log_event_fields)
qed

lemma valid_names_iff:
  "valid_names name \<longleftrightarrow> suffix ''csv'' name \<or> suffix ''xls'' name \<or> suffix ''xlsx'' name"
  by (simp add: valid_names_def)

text \<open>
  Claim C3, as the code has it: \<open>download(url, name)\<close> returns without a transfer and
  leaves the store as it was exactly when \<open>url\<close> is in the downloaded set and \<open>name\<close>
  ends in one of the strings \<open>csv\<close>, \<open>xls\<close>, \<open>xlsx\<close> (no dot, case as written); in every
  other case the transfer is requested.
\<close>

theorem download_skip_iff:
  "(download env url name s = (None, s)) =
     (url \<in> downloaded s \<and> (suffix ''csv'' name \<or> suffix ''xls'' name \<or> suffix ''xlsx'' name)) \<and>
   (\<not> (url \<in> downloaded s \<and> (suffix ''csv'' name \<or> suffix ''xls'' name \<or> suffix ''xlsx'' name)) \<longrightarrow>
      (\<exists>rest. trace (snd (download env url name s)) = trace s @ Transfer url name # rest))"
proof -
  have a: "download env url name s = (None, s)" if "url \<in> downloaded s \<and> valid_names name"
    using that by (simp add: download_def)
  have b: "download env url name s \<noteq> (None, s)" if n: "\<not> (url \<in> downloaded s \<and> valid_names name)"
  proof
    assume "download env url name s = (None, s)"
    with download_transfers[OF n, of env] show False by simp
  qed
  from a b download_transfers[of url s name env] show ?thesis
    unfolding valid_names_iff[symmetric] by blast
qed

theorem download_skip_iff_witness:
  "download (demo_env [] []) ''http://h/a.xls'' ''a.xls''
       (load_downloaded [''http://h/a.xls''] (\<lambda>n. None)) =
     (None, load_downloaded [''http://h/a.xls''] (\<lambda>n. None)) \<and>
   (\<exists>rest. trace (snd (download (demo_env [] []) ''http://h/a.xls'' ''report''
                          (load_downloaded [''http://h/a.xls''] (\<lambda>n. None)))) =
            Transfer ''http://h/a.xls'' ''report'' # rest)"
proof -
  let ?s = "load_downloaded [''http://h/a.xls''] (\<lambda>n. None)"
  have in_set: "''http://h/a.xls'' \<in> downloaded ?s" by (simp add: load_downloaded_def)
  have yes: "suffix ''xls'' ''a.xls''" by code_simp
  have no: "\<not> (suffix ''csv'' ''report'' \<or> suffix ''xls'' ''report'' \<or> suffix ''xlsx'' ''report'')"
    by code_simp
  have tr: "trace ?s = []" by (simp add: load_downloaded_def)
  from download_skip_iff[of "demo_env [] []" "''http://h/a.xls''" "''a.xls''" ?s] in_set yes
  have 1: "download (demo_env [] []) ''http://h/a.xls'' ''a.xls'' ?s = (None, ?s)" by blast
  from download_skip_iff[of "demo_env [] []" "''http://h/a.xls''" "''report''" ?s] no
  have 2: "\<exists>rest. trace (snd (download (demo_env [] []) ''http://h/a.xls'' ''report'' ?s)) =
             trace ?s @ Transfer ''http://h/a.xls'' ''report'' # rest" by blast
  from 1 2 show ?thesis unfolding tr by simp
qed

text \<open>The name \<open>datacsv\<close> has no extension, and its recorded URL is skipped all the same.\<close>

theorem download_skip_extension_counterexample:
  "''http://h/d'' \<in> downloaded (load_downloaded [''http://h/d''] (\<lambda>n. None)) \<and>
   \<not> data_file_extension ''datacsv'' \<and>
   download (demo_env [] []) ''http://h/d'' ''datacsv'' (load_downloaded [''http://h/d''] (\<lambda>n. None)) =
     (None, load_downloaded [''http://h/d''] (\<lambda>n. None))"
proof -
  have 1: "\<not> data_file_extension ''datacsv''" by code_simp
  have 2: "valid_names ''datacsv''" by code_simp
  show ?thesis using 1 2 by (simp add: download_def load_downloaded_def)
qed





subsection \<open>The link classifier\<close>









subsection \<open>The existence probe\<close>




text \<open>
  Claim C9 at a site that answers \<open>HEAD\<close> with 405 and \<open>GET\<close> with 200: \<open>url_exists\<close>
  answers \<open>False\<close> after the \<open>HEAD\<close> and sends no \<open>GET\<close>. The second request is in the
  handler of the first, so it is sent only when \<open>session.head\<close> raises.
\<close>

theorem url_exists_head_rejected:
  "get_status head_rejected_env ''http://h/p2.html'' = Inr 200 \<and>
   head_status head_rejected_env ''http://h/p2.html'' = Inr 405 \<and>
   fst (url_exists head_rejected_env ''http://h/p2.html'' (load_downloaded [] (\<lambda>n. None))) = False \<and>
   trace (snd (url_exists head_rejected_env ''http://h/p2.html'' (load_downloaded [] (\<lambda>n. None)))) =
     [Head ''http://h/p2.html'']"
  by (simp add: url_exists_def head_rejected_env_def demo_env_def load_downloaded_def log_event_def)

subsection \<open>Mode detection, the next button and the last page\<close>

lemma detect_button_iff: "detect_button as \<longleftrightarrow> (\<exists>a\<in>set as. enabled_next a)"
  by (induction as) (auto simp: enabled_next_def)


text \<open>
  Claim C6: a page with an anchor whose text holds an entry of the next-page vocabulary and
  that neither disabled test flags is detected as button mode, whatever the current URL
  and whatever the probe of its successor would answer; no request is sent.
\<close>

theorem detect_button_priority:
  assumes "a \<in> set (anchors soup)" and "t \<in> set next_texts" and "sublist t (a_text a)"
    and "\<not> class_disabled a" and "\<not> onclick_disabled a"
  shows "detect_pagination_mode env soup current_url s = (Some Button, s)"
proof -
  from assms(2,3) have "text_matches next_texts (a_text a)"
    by (auto simp: text_matches_def list_ex_iff)
  with assms(1,4,5) have "detect_button (anchors soup)"
    unfolding detect_button_iff enabled_next_def by blast
  then show ?thesis by (simp add: detect_pagination_mode_def)
qed


theorem detect_button_priority_witness:
  "has_url_pagination_pattern ''http://h/common_list_3.shtml'' \<and>
   fst (detect_pagination_mode (demo_env [(''http://h/common_list_4.shtml'', page_of [])] [])
          (page_of []) ''http://h/common_list_3.shtml'' (load_downloaded [] (\<lambda>n. None))) = Some Url \<and>
   detect_pagination_mode (demo_env [(''http://h/common_list_4.shtml'', page_of [])] [])
       (page_of [link ''common_list_4.shtml'' ''Next >'']) ''http://h/common_list_3.shtml''
       (load_downloaded [] (\<lambda>n. None)) =
     (Some Button, load_downloaded [] (\<lambda>n. None))"
proof -
  let ?a = "link ''common_list_4.shtml'' ''Next >''"
  have 1: "has_url_pagination_pattern ''http://h/common_list_3.shtml''" by code_simp
  have 2: "fst (detect_pagination_mode (demo_env [(''http://h/common_list_4.shtml'', page_of [])] [])
          (page_of []) ''http://h/common_list_3.shtml'' (load_downloaded [] (\<lambda>n. None))) = Some Url"
    by code_simp
  have a: "?a \<in> set (anchors (page_of [?a]))" by (simp add: page_of_def)
  have t: "''Next'' \<in> set next_texts" by (simp add: next_texts_def)
  have sub: "sublist ''Next'' (a_text ?a)" by code_simp
  have c: "\<not> class_disabled ?a" by code_simp
  have d: "\<not> onclick_disabled ?a" by code_simp
  from 1 2 detect_button_priority[OF a t sub c d] show ?thesis by simp
qed






lemma re_search_Some: "re_search m s = Some r \<Longrightarrow> \<exists>t. suffix t s \<and> m t = Some r"
proof (induction s)
  case Nil
  then show ?case by auto
next
  case (Cons c cs)
  show ?case
  proof (cases "m (c # cs)")
    case None
    with Cons obtain t where "suffix t cs" "m t = Some r" by auto
    then show ?thesis by (auto intro: suffix_ConsI)
  next
    case (Some a)
    with Cons.prems show ?thesis by auto
  qed
qed













subsection \<open>Successor synthesis\<close>

lemma lower_char_cases:
  "lower_char c = c \<or> (c \<in> set upper_letters \<and> lower_char c \<in> set lower_letters)"
proof (cases "map_of (zip upper_letters lower_letters) c")
  case None
  then show ?thesis by (simp add: lower_char_def)
next
  case (Some d)
  then have "(c, d) \<in> set (zip upper_letters lower_letters)" by (rule map_of_SomeD)
  then have "c \<in> set upper_letters" "d \<in> set lower_letters"
    by (auto dest: set_zip_leftD set_zip_rightD)
  with Some show ?thesis by (simp add: lower_char_def)
qed

lemma letters_not_sep:
  "c \<in> set upper_letters \<Longrightarrow> \<not> is_sep c \<and> \<not> is_digit c"
  "c \<in> set lower_letters \<Longrightarrow> \<not> is_sep c \<and> \<not> is_digit c"
  by (auto simp: upper_letters_def lower_letters_def is_sep_def is_space_def is_digit_def)



lemma lower_char_digit: "is_digit (lower_char c) \<longleftrightarrow> is_digit c"
  using lower_char_cases[of c] letters_not_sep[of c] letters_not_sep[of "lower_char c"] by auto





lemma re_search_None: "(\<forall>t. suffix t u \<longrightarrow> m t = None) \<Longrightarrow> re_search m u = None"
proof (induction u)
  case Nil
  then show ?case by simp
next
  case (Cons c u)
  from Cons.prems have "m (c # u) = None" by simp
  moreover from Cons.prems have "\<forall>t. suffix t u \<longrightarrow> m t = None"
    by (simp add: suffix_ConsI)
  ultimately show ?case using Cons.IH by simp
qed







lemma lower_length [simp]: "length (lower s) = length s"
  by (simp add: lower_def)




lemma starts_ci_split:
  assumes "starts_ci lit t"
  obtains w r where "t = w @ r" "length w = length lit" "lower w = lower lit"
proof -
  from assms have l: "lower (take (length lit) t) = lower lit" by (simp add: starts_ci_def)
  then have "length (lower (take (length lit) t)) = length (lower lit)" by simp
  then have "length (take (length lit) t) = length lit" by simp
  with l that[of "take (length lit) t" "drop (length lit) t"] show thesis by simp
qed



lemma m_word_digits_Some:
  assumes "m_word_digits lit t = Some (g, ds)"
  obtains w seps q where "t = w @ seps @ ds @ q" "g = w @ seps" "length w = length lit"
    "lower w = lower lit" "list_all is_sep seps" "ds \<noteq> []" "list_all is_digit ds"
    "q = [] \<or> \<not> is_digit (hd q)"
proof -
  from assms have sc: "starts_ci lit t"
    by (auto simp: m_word_digits_def Let_def split: if_splits)
  then obtain w r where t: "t = w @ r" "length w = length lit" "lower w = lower lit"
    by (rule starts_ci_split)
  let ?seps = "takeWhile is_sep r" and ?r' = "dropWhile is_sep r"
  let ?q = "dropWhile is_digit ?r'"
  from assms sc t have g: "g = w @ ?seps" and ds: "ds = takeWhile is_digit ?r'" "ds \<noteq> []"
    by (auto simp: m_word_digits_def Let_def split: if_splits)
  have "r = ?seps @ ?r'" by simp
  also have "?r' = ds @ ?q" unfolding ds by simp
  finally have r: "r = ?seps @ ds @ ?q" .
  have a: "list_all is_sep ?seps" by (auto simp: list_all_iff dest: set_takeWhileD)
  have b: "list_all is_digit ds" unfolding ds by (auto simp: list_all_iff dest: set_takeWhileD)
  have c: "?q = [] \<or> \<not> is_digit (hd ?q)" using hd_dropWhile[of is_digit ?r'] by blast
  from that[of w ?seps ?q] t r g ds(2) a b c show thesis by simp
qed





















subsection \<open>The crawl\<close>




























subsection \<open>The second run\<close>





lemma news_log: "news s (log_event e s) = [e]"
  by (simp add: news_def log_event_fields)




lemma replay_quiet:
  assumes "quiet s s'" and "calm (news s s')"
  shows "replay s s'"
  using assms unfolding quiet_def replay_def by blast



































subsection \<open>A failed download on a listing page\<close>









end
